theory Spec2Isabelle
  imports Main
begin

section \<open>Strings, whitespace and the regular expressions of the formatter\<close>

text \<open>
  The formatter of \<^verbatim>\<open>formatting-provider.ts\<close> works on JavaScript strings. A string is
  modelled as a \<^typ>\<open>string\<close>, one \<^typ>\<open>char\<close> per code unit; the model covers the code
  units below 256. The indentation level is a JavaScript number that only ever holds
  integers: it is an \<^typ>\<open>int\<close>, so that \<^verbatim>\<open>indentLevel - 1\<close> can go below zero where
  the code does not clamp it.
\<close>

text \<open>\<^verbatim>\<open>String.prototype.trim\<close> removes white space and line terminators at both ends:
  TAB, LF, VT, FF, CR, SP and NBSP are the ones below 256.\<close>

definition isWhitespace :: "char \<Rightarrow> bool" where
  "isWhitespace c \<longleftrightarrow>
     c = CHR 0x09 \<or> c = CHR 0x0A \<or> c = CHR 0x0B \<or> c = CHR 0x0C \<or> c = CHR 0x0D \<or>
     c = CHR 0x20 \<or> c = CHR 0xA0"

definition trim :: "string \<Rightarrow> string" where
  "trim s = rev (dropWhile isWhitespace (rev (dropWhile isWhitespace s)))"

text \<open>\<^verbatim>\<open>text.split('\n')\<close> and \<^verbatim>\<open>out.join('\n')\<close>. Splitting never returns the empty
  array: the empty text has the one line \<^verbatim>\<open>''\<close>.\<close>

definition newline :: char where
  "newline = CHR 0x0A"

fun split_lines :: "string \<Rightarrow> string list" where
  "split_lines [] = [[]]"
| "split_lines (c # cs) =
     (if c = newline then [] # split_lines cs
      else (case split_lines cs of
              [] \<Rightarrow> [[c]]
            | l # ls \<Rightarrow> (c # l) # ls))"

fun join_lines :: "string list \<Rightarrow> string" where
  "join_lines [] = []"
| "join_lines [l] = l"
| "join_lines (l # ls) = l @ newline # join_lines ls"

text \<open>The class \<^verbatim>\<open>\w\<close> of a regular expression without the \<^verbatim>\<open>u\<close> flag is
  \<^verbatim>\<open>[A-Za-z0-9_]\<close>. Under the \<^verbatim>\<open>i\<close> flag two code units match when their
  canonical (upper case) forms agree; a code unit outside ASCII never canonicalises to
  an ASCII one, and every keyword is ASCII, so only the ASCII letters are folded.\<close>

definition isWordChar :: "char \<Rightarrow> bool" where
  "isWordChar c \<longleftrightarrow>
     (let n = (of_char c :: nat) in
      (97 \<le> n \<and> n \<le> 122) \<or> (65 \<le> n \<and> n \<le> 90) \<or> (48 \<le> n \<and> n \<le> 57) \<or> n = 95)"

definition canonicalize :: "char \<Rightarrow> char" where
  "canonicalize c =
     (let n = (of_char c :: nat) in if 97 \<le> n \<and> n \<le> 122 then char_of (n - 32) else c)"

text \<open>\<^verbatim>\<open>prefixCI kw s\<close> matches the keyword at the start of \<^verbatim>\<open>s\<close>, ignoring case, and
  returns what follows it.\<close>

fun prefixCI :: "string \<Rightarrow> string \<Rightarrow> string option" where
  "prefixCI [] s = Some s"
| "prefixCI (k # ks) [] = None"
| "prefixCI (k # ks) (c # cs) =
     (if canonicalize k = canonicalize c then prefixCI ks cs else None)"

text \<open>\<^verbatim>\<open>/^kw\b/i.test(s)\<close>: the keyword ends in a word character, so the boundary holds
  at the end of the string or before a character that is not a word character.\<close>

definition startsWithWord :: "string \<Rightarrow> string \<Rightarrow> bool" where
  "startsWithWord kw s =
     (case prefixCI kw s of
        None \<Rightarrow> False
      | Some rest \<Rightarrow> (case rest of [] \<Rightarrow> True | c # _ \<Rightarrow> \<not> isWordChar c))"

text \<open>\<^verbatim>\<open>/^(k1|k2|...)\b/i.test(s)\<close>: the regular expression backtracks over the
  alternatives, so it matches when one of them does.\<close>

definition startsWithAny :: "string list \<Rightarrow> string \<Rightarrow> bool" where
  "startsWithAny kws s = list_ex (\<lambda>kw. startsWithWord kw s) kws"

text \<open>\<^verbatim>\<open>/\bkw\b/i.test(s)\<close>: the keyword starts with a word character, so the leading
  boundary holds at the start of the string or after a character that is not a word
  character. The flag is whether the previous character is a word character.\<close>

fun containsWordFrom :: "bool \<Rightarrow> string \<Rightarrow> string \<Rightarrow> bool" where
  "containsWordFrom prevWord kw [] = False"
| "containsWordFrom prevWord kw (c # cs) =
     ((\<not> prevWord \<and> startsWithWord kw (c # cs)) \<or> containsWordFrom (isWordChar c) kw cs)"

definition containsWord :: "string \<Rightarrow> string \<Rightarrow> bool" where
  "containsWord kw s = containsWordFrom False kw s"

text \<open>\<^verbatim>\<open>Procedure(?:C|DLL|CDLL)?\<close> followed by \<^verbatim>\<open>\b\<close>.\<close>

definition procedureKeywords :: "string list" where
  "procedureKeywords = [''Procedure'', ''ProcedureC'', ''ProcedureDLL'', ''ProcedureCDLL'']"

definition containsProcedure :: "string \<Rightarrow> bool" where
  "containsProcedure s = list_ex (\<lambda>kw. containsWord kw s) procedureKeywords"

section \<open>The sanitizer\<close>

text \<open>\<^verbatim>\<open>stripStringsAndComments\<close>: the loop over the characters of the line, with the two
  quote flags; \<^verbatim>\<open>break\<close> at a comment marker outside every string.\<close>

fun stripLoop :: "bool \<Rightarrow> bool \<Rightarrow> string \<Rightarrow> string" where
  "stripLoop inDq inSq [] = []"
| "stripLoop inDq inSq (ch # rest) =
     (if \<not> inDq \<and> \<not> inSq \<and> ch = CHR 0x3B then []
      else if \<not> inSq \<and> ch = CHR 0x22 then stripLoop (\<not> inDq) inSq rest
      else if \<not> inDq \<and> ch = CHR 0x27 then stripLoop inDq (\<not> inSq) rest
      else if \<not> inDq \<and> \<not> inSq then ch # stripLoop inDq inSq rest
      else stripLoop inDq inSq rest)"

definition stripStringsAndComments :: "string \<Rightarrow> string" where
  "stripStringsAndComments line = stripLoop False False line"

text \<open>The quote flags of the loop after a prefix of the line that holds no comment start.\<close>

fun quoteState :: "bool \<times> bool \<Rightarrow> string \<Rightarrow> bool \<times> bool" where
  "quoteState (inDq, inSq) [] = (inDq, inSq)"
| "quoteState (inDq, inSq) (ch # rest) =
     (if \<not> inSq \<and> ch = CHR 0x22 then quoteState (\<not> inDq, inSq) rest
      else if \<not> inDq \<and> ch = CHR 0x27 then quoteState (inDq, \<not> inSq) rest
      else quoteState (inDq, inSq) rest)"

section \<open>Options and the indent renderer\<close>

record FormattingOptions =
  tabSize :: nat
  insertSpaces :: bool
  spaceAfterKeywords :: bool
  spaceAroundOperators :: bool
  formatProcedureBody :: bool

definition DEFAULT_OPTIONS :: FormattingOptions where
  "DEFAULT_OPTIONS = \<lparr> tabSize = 4, insertSpaces = True, spaceAfterKeywords = False,
     spaceAroundOperators = False, formatProcedureBody = True \<rparr>"

datatype error = RangeError

text \<open>\<^verbatim>\<open>createIndent\<close>: \<^verbatim>\<open>String.prototype.repeat\<close> throws a RangeError on a negative
  count. \<^verbatim>\<open>tabSize\<close> is an unsigned integer of the language-server protocol.\<close>

definition createIndent :: "int \<Rightarrow> FormattingOptions \<Rightarrow> error + string" where
  "createIndent level options =
     (let indentChar = (if insertSpaces options then CHR 0x20 else CHR 0x09);
          indentSize = (if insertSpaces options then int (tabSize options) else 1);
          count = level * indentSize
      in if count < 0 then Inl RangeError else Inr (replicate (nat count) indentChar))"

section \<open>Line classification\<close>

text \<open>The predicates local to \<^verbatim>\<open>formatPureBasicCode\<close>, each a regular expression
  anchored at the start of the sanitized, trimmed line.\<close>

definition closingKeywords :: "string list" where
  "closingKeywords = [''EndProcedure'', ''EndModule'', ''EndStructure'', ''EndIf'', ''Next'',
     ''Wend'', ''Until'', ''ForEver'', ''EndWith'', ''EndDeclareModule'', ''EndInterface'',
     ''EndEnumeration'', ''EndMacro'', ''EndDataSection'', ''CompilerEndIf'',
     ''CompilerEndSelect'']"

definition openingKeywords :: "string list" where
  "openingKeywords = procedureKeywords @ [''Module'', ''Structure'', ''If'', ''For'',
     ''ForEach'', ''While'', ''Repeat'', ''With'', ''DeclareModule'', ''Interface'',
     ''Enumeration'', ''Macro'', ''DataSection'', ''CompilerIf'', ''CompilerSelect'']"

definition isClosing :: "string \<Rightarrow> bool" where
  "isClosing l = startsWithAny closingKeywords l"

definition isOpening :: "string \<Rightarrow> bool" where
  "isOpening l = startsWithAny openingKeywords l"

definition isEndSelect :: "string \<Rightarrow> bool" where
  "isEndSelect l = startsWithWord ''EndSelect'' l"

definition isSelect :: "string \<Rightarrow> bool" where
  "isSelect l = startsWithWord ''Select'' l"

definition isCase :: "string \<Rightarrow> bool" where
  "isCase l = startsWithAny [''Case'', ''Default''] l"

definition isMiddle :: "string \<Rightarrow> bool" where
  "isMiddle l = startsWithAny [''Else'', ''ElseIf'', ''CompilerElse'', ''CompilerElseIf''] l"

definition hasInlineNetZero :: "string \<Rightarrow> bool" where
  "hasInlineNetZero code \<longleftrightarrow>
     (containsWord ''If'' code \<and> containsWord ''EndIf'' code) \<or>
     ((containsWord ''For'' code \<or> containsWord ''ForEach'' code) \<and> containsWord ''Next'' code) \<or>
     (containsWord ''While'' code \<and> containsWord ''Wend'' code) \<or>
     (containsWord ''Repeat'' code \<and>
        (containsWord ''Until'' code \<or> containsWord ''ForEver'' code)) \<or>
     (containsWord ''Select'' code \<and> containsWord ''EndSelect'' code) \<or>
     (containsWord ''With'' code \<and> containsWord ''EndWith'' code) \<or>
     (containsProcedure code \<and> containsWord ''EndProcedure'' code) \<or>
     (containsWord ''Module'' code \<and> containsWord ''EndModule'' code) \<or>
     (containsWord ''DeclareModule'' code \<and> containsWord ''EndDeclareModule'' code) \<or>
     (containsWord ''Structure'' code \<and> containsWord ''EndStructure'' code) \<or>
     (containsWord ''Interface'' code \<and> containsWord ''EndInterface'' code) \<or>
     (containsWord ''Enumeration'' code \<and> containsWord ''EndEnumeration'' code) \<or>
     (containsWord ''Macro'' code \<and> containsWord ''EndMacro'' code) \<or>
     (containsWord ''DataSection'' code \<and> containsWord ''EndDataSection'' code) \<or>
     (containsWord ''CompilerIf'' code \<and> containsWord ''CompilerEndIf'' code) \<or>
     (containsWord ''CompilerSelect'' code \<and> containsWord ''CompilerEndSelect'' code)"

text \<open>The predicates local to \<^verbatim>\<open>computeInitialFormatterState\<close>. \<^verbatim>\<open>isEndSelect\<close>,
  \<^verbatim>\<open>isSelect\<close> and \<^verbatim>\<open>isCase\<close> are written there as above; the three below and the
  inline test have shorter keyword lists.\<close>

definition closingKeywords_init :: "string list" where
  "closingKeywords_init = [''EndProcedure'', ''EndModule'', ''EndStructure'', ''EndIf'',
     ''Next'', ''Wend'', ''Until'', ''ForEver'', ''EndWith'', ''EndDeclareModule'',
     ''EndInterface'', ''EndEnumeration'']"

definition openingKeywords_init :: "string list" where
  "openingKeywords_init = procedureKeywords @ [''Module'', ''Structure'', ''If'', ''For'',
     ''ForEach'', ''While'', ''Repeat'', ''With'', ''DeclareModule'', ''Interface'',
     ''Enumeration'']"

definition isClosing_init :: "string \<Rightarrow> bool" where
  "isClosing_init l = startsWithAny closingKeywords_init l"

definition isOpening_init :: "string \<Rightarrow> bool" where
  "isOpening_init l = startsWithAny openingKeywords_init l"

definition isMiddle_init :: "string \<Rightarrow> bool" where
  "isMiddle_init l = startsWithAny [''Else'', ''ElseIf''] l"

definition hasInlineNetZero_init :: "string \<Rightarrow> bool" where
  "hasInlineNetZero_init code \<longleftrightarrow>
     (containsWord ''If'' code \<and> containsWord ''EndIf'' code) \<or>
     ((containsWord ''For'' code \<or> containsWord ''ForEach'' code) \<and> containsWord ''Next'' code) \<or>
     (containsWord ''While'' code \<and> containsWord ''Wend'' code) \<or>
     (containsWord ''Repeat'' code \<and>
        (containsWord ''Until'' code \<or> containsWord ''ForEver'' code)) \<or>
     (containsWord ''Select'' code \<and> containsWord ''EndSelect'' code) \<or>
     (containsWord ''With'' code \<and> containsWord ''EndWith'' code) \<or>
     (containsProcedure code \<and> containsWord ''EndProcedure'' code) \<or>
     (containsWord ''Module'' code \<and> containsWord ''EndModule'' code) \<or>
     (containsWord ''DeclareModule'' code \<and> containsWord ''EndDeclareModule'' code) \<or>
     (containsWord ''Structure'' code \<and> containsWord ''EndStructure'' code) \<or>
     (containsWord ''Interface'' code \<and> containsWord ''EndInterface'' code) \<or>
     (containsWord ''Enumeration'' code \<and> containsWord ''EndEnumeration'' code)"

section \<open>The indentation state machine\<close>

record FormatterState =
  indentLevel :: int
  inSelect :: bool
  selectBaseIndent :: int
  caseActive :: bool

text \<open>The state of a call without \<^verbatim>\<open>initialState\<close>, and the one
  \<^verbatim>\<open>computeInitialFormatterState\<close> starts from.\<close>

definition initialFormatterState :: FormatterState where
  "initialFormatterState =
     \<lparr> indentLevel = 0, inSelect = False, selectBaseIndent = 0, caseActive = False \<rparr>"

definition startsWithSemicolon :: "string \<Rightarrow> bool" where
  "startsWithSemicolon s = (case s of [] \<Rightarrow> False | c # _ \<Rightarrow> c = CHR 0x3B)"

text \<open>The sanitized, trimmed line that the predicates look at.\<close>

definition codeOf :: "string \<Rightarrow> string" where
  "codeOf raw = trim (stripStringsAndComments raw)"

text \<open>
  The body of the loop of \<^verbatim>\<open>formatPureBasicCode\<close> is a sequence of five groups of
  assignments to \<^verbatim>\<open>lineIndent\<close> and to the four state variables; each group is one
  function here, in the order of the source.

  First group, the chain that starts at \<^verbatim>\<open>if (!inlineAny && isEndSelect(code))\<close>:
  \<^verbatim>\<open>EndSelect\<close>, \<^verbatim>\<open>Select\<close>, \<^verbatim>\<open>Case\<close>/\<^verbatim>\<open>Default\<close> inside a Select, and the closing
  statements. It gives \<^verbatim>\<open>lineIndent\<close> and the state.
\<close>

definition closingPhase :: "bool \<Rightarrow> string \<Rightarrow> FormatterState \<Rightarrow> int \<times> FormatterState" where
  "closingPhase inlineAny code st =
     (if \<not> inlineAny \<and> isEndSelect code then
        (if inSelect st then
           (max 0 (selectBaseIndent st),
            st\<lparr>indentLevel := selectBaseIndent st, inSelect := False, caseActive := False\<rparr>)
         else
           (max 0 (indentLevel st - 1), st\<lparr>indentLevel := max 0 (indentLevel st - 1)\<rparr>))
      else if \<not> inlineAny \<and> isSelect code then (indentLevel st, st)
      else if \<not> inlineAny \<and> inSelect st \<and> isCase code then (selectBaseIndent st + 1, st)
      else if \<not> inlineAny \<and> isClosing code then
        (max 0 (indentLevel st - 1), st\<lparr>indentLevel := max 0 (indentLevel st - 1)\<rparr>)
      else (indentLevel st, st))"

text \<open>Second group, the middle statements: the condition is the value of
  \<^verbatim>\<open>restoreAfter\<close>.\<close>

definition restoreAfterOf :: "bool \<Rightarrow> string \<Rightarrow> bool" where
  "restoreAfterOf inlineAny code \<longleftrightarrow>
     \<not> inlineAny \<and> \<not> isSelect code \<and> \<not> isEndSelect code \<and> isMiddle code"

definition middlePhase :: "bool \<Rightarrow> int \<times> FormatterState \<Rightarrow> int \<times> FormatterState" where
  "middlePhase restoreAfter p =
     (case p of (lineIndent, st) \<Rightarrow>
        if restoreAfter then
          (max 0 (lineIndent - 1), st\<lparr>indentLevel := max 0 (lineIndent - 1)\<rparr>)
        else (lineIndent, st))"

text \<open>Third group, after the line is pushed: the chain that starts at
  \<^verbatim>\<open>if (inlineAny)\<close>.\<close>

definition postPhase :: "bool \<Rightarrow> bool \<Rightarrow> string \<Rightarrow> int \<Rightarrow> FormatterState \<Rightarrow> FormatterState" where
  "postPhase inlineIf inlineAny code lineIndent st =
     (if inlineAny then st
      else if isSelect code then
        st\<lparr>inSelect := True, selectBaseIndent := lineIndent, caseActive := False,
           indentLevel := lineIndent + 1\<rparr>
      else if \<not> inlineIf \<and> inSelect st \<and> isCase code then
        st\<lparr>caseActive := True, indentLevel := selectBaseIndent st + 2\<rparr>
      else if \<not> inlineAny \<and> isOpening code then st\<lparr>indentLevel := indentLevel st + 1\<rparr>
      else st)"

text \<open>Fourth group: \<^verbatim>\<open>if (!inlineAny && restoreAfter) indentLevel++\<close>.\<close>

definition restorePhase :: "bool \<Rightarrow> bool \<Rightarrow> FormatterState \<Rightarrow> FormatterState" where
  "restorePhase inlineAny restoreAfter st =
     (if \<not> inlineAny \<and> restoreAfter then st\<lparr>indentLevel := indentLevel st + 1\<rparr> else st)"

text \<open>Fifth group: inside a Select before the first Case, the level stays at least one
  above the Select.\<close>

definition pinPhase :: "bool \<Rightarrow> string \<Rightarrow> FormatterState \<Rightarrow> FormatterState" where
  "pinPhase inlineAny code st =
     (if \<not> inlineAny \<and> inSelect st \<and> \<not> caseActive st \<and> \<not> isEndSelect code \<and>
         \<not> isCase code \<and> \<not> isSelect code then
        st\<lparr>indentLevel := max (indentLevel st) (selectBaseIndent st + 1)\<rparr>
      else st)"

text \<open>
  One iteration of the loop, without the rendering: the result is the level the line is
  pushed at (\<^verbatim>\<open>None\<close> for a blank line, which is pushed empty; otherwise the value of
  \<^verbatim>\<open>indentLevel\<close> or \<^verbatim>\<open>lineIndent\<close> that goes into \<^verbatim>\<open>Math.max(0, _)\<close>) and the
  four variables after the iteration.
\<close>

definition formatStep :: "FormatterState \<Rightarrow> string \<Rightarrow> int option \<times> FormatterState" where
  "formatStep st raw =
     (let trimmed = trim raw; code = codeOf raw in
      if trimmed = [] then (None, st)
      else if startsWithSemicolon trimmed then (Some (indentLevel st), st)
      else
        let inlineIf = (startsWithWord ''If'' code \<and> containsWord ''EndIf'' code);
            inlineAny = hasInlineNetZero code;
            restoreAfter = restoreAfterOf inlineAny code;
            (lineIndent, st2) = middlePhase restoreAfter (closingPhase inlineAny code st);
            st3 = postPhase inlineIf inlineAny code lineIndent st2;
            st4 = restorePhase inlineAny restoreAfter st3;
            st5 = pinPhase inlineAny code st4
        in (Some lineIndent, st5))"

text \<open>The iteration with its \<^verbatim>\<open>out.push\<close>: the pushed line and the state.\<close>

definition formatLine ::
  "FormattingOptions \<Rightarrow> FormatterState \<Rightarrow> string \<Rightarrow> error + (string \<times> FormatterState)" where
  "formatLine options st raw =
     (case formatStep st raw of
        (None, st') \<Rightarrow> Inr ([], st')
      | (Some level, st') \<Rightarrow>
          (case createIndent (max 0 level) options of
             Inl e \<Rightarrow> Inl e
           | Inr indent \<Rightarrow> Inr (indent @ trim raw, st')))"

text \<open>The loop over the lines: the array \<^verbatim>\<open>out\<close> and the variables at the end.\<close>

fun formatLoop ::
  "FormattingOptions \<Rightarrow> FormatterState \<Rightarrow> string list \<Rightarrow> error + (string list \<times> FormatterState)"
where
  "formatLoop options st [] = Inr ([], st)"
| "formatLoop options st (raw # rest) =
     (case formatLine options st raw of
        Inl e \<Rightarrow> Inl e
      | Inr (line, st') \<Rightarrow>
          (case formatLoop options st' rest of
             Inl e \<Rightarrow> Inl e
           | Inr (out, final) \<Rightarrow> Inr (line # out, final)))"

definition formatPureBasicCode ::
  "string \<Rightarrow> FormattingOptions \<Rightarrow> FormatterState option \<Rightarrow> error + string" where
  "formatPureBasicCode text options initialState =
     (let lines = split_lines text;
          st = (case initialState of None \<Rightarrow> initialFormatterState | Some s \<Rightarrow> s)
      in case formatLoop options st lines of
           Inl e \<Rightarrow> Inl e
         | Inr (out, final) \<Rightarrow> Inr (join_lines out))"

text \<open>What the loop variables and the pushed levels are along a run, for the claims that
  speak of them: the state after a list of lines, and the level of each line.\<close>

fun stateAfter :: "FormatterState \<Rightarrow> string list \<Rightarrow> FormatterState" where
  "stateAfter st [] = st"
| "stateAfter st (raw # rest) = (case formatStep st raw of (level, st') \<Rightarrow> stateAfter st' rest)"

fun lineLevels :: "FormatterState \<Rightarrow> string list \<Rightarrow> int option list" where
  "lineLevels st [] = []"
| "lineLevels st (raw # rest) =
     (case formatStep st raw of (level, st') \<Rightarrow> level # lineLevels st' rest)"

text \<open>A pushed level that is not negative.\<close>

definition levelOk :: "int option \<Rightarrow> bool" where
  "levelOk level = (case level of None \<Rightarrow> True | Some v \<Rightarrow> 0 \<le> v)"

section \<open>The state reconstructor and range formatting\<close>

text \<open>One iteration of the loop of \<^verbatim>\<open>computeInitialFormatterState\<close>.\<close>

definition initStep :: "FormatterState \<Rightarrow> string \<Rightarrow> FormatterState" where
  "initStep st raw =
     (let trimmed = trim raw; code = codeOf raw in
      if trimmed = [] \<or> startsWithSemicolon trimmed then st
      else
        let inlineAny = hasInlineNetZero_init code;
            st1 =
              (if \<not> inlineAny \<and> isEndSelect code then
                 (if inSelect st then
                    st\<lparr>indentLevel := max 0 (selectBaseIndent st), inSelect := False,
                       caseActive := False\<rparr>
                  else st\<lparr>indentLevel := max 0 (indentLevel st - 1)\<rparr>)
               else if \<not> inlineAny \<and> isSelect code then
                 st\<lparr>selectBaseIndent := indentLevel st, inSelect := True, caseActive := False,
                    indentLevel := indentLevel st + 1\<rparr>
               else if \<not> inlineAny \<and> isClosing_init code then
                 st\<lparr>indentLevel := max 0 (indentLevel st - 1)\<rparr>
               else st);
            st2 =
              (if inlineAny then st1
               else if isSelect code then st1
               else if \<not> inlineAny \<and> inSelect st1 \<and> isCase code then
                 st1\<lparr>indentLevel := selectBaseIndent st1 + 2\<rparr>
               else if \<not> inlineAny \<and> isOpening_init code then
                 st1\<lparr>indentLevel := indentLevel st1 + 1\<rparr>
               else st1);
            st3 =
              (if \<not> inlineAny \<and> inSelect st2 \<and> \<not> caseActive st2 \<and> \<not> isEndSelect code \<and>
                  \<not> isCase code \<and> \<not> isSelect code then
                 st2\<lparr>indentLevel := max (indentLevel st2) (selectBaseIndent st2 + 1)\<rparr>
               else st2)
        in st3)"

definition computeInitialFormatterState :: "string list \<Rightarrow> FormatterState" where
  "computeInitialFormatterState linesBefore = foldl initStep initialFormatterState linesBefore"

text \<open>
  A text edit of the language-server protocol that replaces whole lines: first line, last
  line, new text.
\<close>

datatype TextEdit = Replace nat nat string

text \<open>
  \<^verbatim>\<open>handleDocumentRangeFormatting\<close>, for a document whose line terminator is LF and a range
  from line \<^verbatim>\<open>startLine\<close> to line \<^verbatim>\<open>endLine\<close>. The text buffer is the protocol
  library's \<^verbatim>\<open>TextDocument\<close>; \<^verbatim>\<open>expandToFullLines\<close> followed by \<^verbatim>\<open>getText\<close> gives
  it the lines of the range, joined by LF. The options are the merged ones.
\<close>

definition expandedTextOf :: "string \<Rightarrow> nat \<Rightarrow> nat \<Rightarrow> string" where
  "expandedTextOf text startLine endLine =
     join_lines (take (Suc endLine - startLine) (drop startLine (split_lines text)))"

definition handleDocumentRangeFormatting ::
  "string \<Rightarrow> nat \<Rightarrow> nat \<Rightarrow> FormattingOptions \<Rightarrow> error + TextEdit list" where
  "handleDocumentRangeFormatting text startLine endLine options =
     (let expandedText = expandedTextOf text startLine endLine;
          linesBefore = take startLine (split_lines text);
          initialState = computeInitialFormatterState linesBefore
      in case formatPureBasicCode expandedText options (Some initialState) of
           Inl e \<Rightarrow> Inl e
         | Inr formattedText \<Rightarrow>
             if formattedText = expandedText then Inr []
             else Inr [Replace startLine endLine formattedText])"

section \<open>Auxiliary notions for the proofs\<close>

text \<open>The leading word of a line in canonical form: a keyword anchored at the start of
  the line matches exactly when it is the leading word.\<close>

definition leadingWord :: "string \<Rightarrow> string" where
  "leadingWord s = map canonicalize (takeWhile isWordChar s)"

text \<open>The two levels of a state are not negative.\<close>

definition stateOk :: "FormatterState \<Rightarrow> bool" where
  "stateOk st \<longleftrightarrow> 0 \<le> indentLevel st \<and> 0 \<le> selectBaseIndent st"

text \<open>Two lines that the loop body cannot tell apart: it reads a line only through its
  trimmed text and its sanitized text.\<close>

definition sameLine :: "string \<Rightarrow> string \<Rightarrow> bool" where
  "sameLine out raw \<longleftrightarrow> trim out = trim raw \<and> codeOf out = codeOf raw"

text \<open>A stretch of a line with no comment marker and no quote in it.\<close>

definition plainCode :: "string \<Rightarrow> bool" where
  "plainCode s \<longleftrightarrow> CHR 0x3B \<notin> set s \<and> CHR 0x22 \<notin> set s \<and> CHR 0x27 \<notin> set s"

text \<open>The pairs of an opening keyword and a closing keyword of one block family, as
  \<^verbatim>\<open>hasInlineNetZero\<close> pairs them.\<close>

definition blockFamilies :: "(string \<times> string) list" where
  "blockFamilies =
     [(''If'', ''EndIf''), (''For'', ''Next''), (''ForEach'', ''Next''), (''While'', ''Wend''),
      (''Repeat'', ''Until''), (''Repeat'', ''ForEver''), (''Select'', ''EndSelect''),
      (''With'', ''EndWith''), (''Procedure'', ''EndProcedure''),
      (''ProcedureC'', ''EndProcedure''), (''ProcedureDLL'', ''EndProcedure''),
      (''ProcedureCDLL'', ''EndProcedure''), (''Module'', ''EndModule''),
      (''DeclareModule'', ''EndDeclareModule''), (''Structure'', ''EndStructure''),
      (''Interface'', ''EndInterface''), (''Enumeration'', ''EndEnumeration''),
      (''Macro'', ''EndMacro''), (''DataSection'', ''EndDataSection''),
      (''CompilerIf'', ''CompilerEndIf''), (''CompilerSelect'', ''CompilerEndSelect'')]"

section \<open>White space and trimming\<close>

lemma ws_not_special:
  "isWhitespace c \<Longrightarrow> c \<noteq> CHR 0x3B \<and> c \<noteq> CHR 0x22 \<and> c \<noteq> CHR 0x27"
  by (auto simp: isWhitespace_def)

lemma dropWhile_all_Nil: "(\<forall>x\<in>set (dropWhile P s). P x) \<Longrightarrow> dropWhile P s = []"
  by (metis hd_dropWhile list.set_sel(1))

lemma dropWhile_ws_append: "\<forall>c\<in>set ws. P c \<Longrightarrow> dropWhile P (ws @ s) = dropWhile P s"
  by (induction ws) auto

lemma dropWhile_ws_Nil: "\<forall>c\<in>set ws. P c \<Longrightarrow> dropWhile P ws = []"
  by (induction ws) auto

lemma trim_Nil_iff: "trim s = [] \<longleftrightarrow> (\<forall>c\<in>set s. isWhitespace c)"
proof
  assume "trim s = []"
  then have "\<forall>x\<in>set (dropWhile isWhitespace s). isWhitespace x"
    by (simp add: trim_def dropWhile_eq_Nil_conv)
  then have "dropWhile isWhitespace s = []" by (rule dropWhile_all_Nil)
  then show "\<forall>c\<in>set s. isWhitespace c" by (simp add: dropWhile_eq_Nil_conv)
next
  assume "\<forall>c\<in>set s. isWhitespace c"
  then show "trim s = []" by (simp add: trim_def dropWhile_ws_Nil)
qed

lemma trim_ws_left: "\<forall>c\<in>set ws. isWhitespace c \<Longrightarrow> trim (ws @ s) = trim s"
  by (simp add: trim_def dropWhile_ws_append)

lemma trim_ws_right:
  assumes ws: "\<forall>c\<in>set ws. isWhitespace c"
  shows "trim (s @ ws) = trim s"
proof (cases "\<forall>c\<in>set s. isWhitespace c")
  case True
  with ws have "\<forall>c\<in>set (s @ ws). isWhitespace c" by auto
  then have "trim (s @ ws) = []" by (simp only: trim_Nil_iff)
  moreover from True have "trim s = []" by (simp only: trim_Nil_iff)
  ultimately show ?thesis by simp
next
  case False
  then have "dropWhile isWhitespace (s @ ws) = dropWhile isWhitespace s @ ws"
    by (auto simp: dropWhile_append1)
  moreover from ws have "\<forall>c\<in>set (rev ws). isWhitespace c" by simp
  ultimately show ?thesis
    by (simp add: trim_def dropWhile_ws_append)
qed

lemma trim_decomp:
  "\<exists>a b. s = a @ trim s @ b \<and> (\<forall>c\<in>set a. isWhitespace c) \<and> (\<forall>c\<in>set b. isWhitespace c)"
proof -
  let ?a = "takeWhile isWhitespace s"
  let ?r = "dropWhile isWhitespace s"
  let ?b = "rev (takeWhile isWhitespace (rev ?r))"
  have "?r = trim s @ ?b"
    unfolding trim_def by (metis rev_append rev_rev_ident takeWhile_dropWhile_id)
  then have "s = ?a @ trim s @ ?b" by (metis takeWhile_dropWhile_id)
  moreover have "\<forall>c\<in>set ?a. isWhitespace c" by (auto dest: set_takeWhileD)
  moreover have "\<forall>c\<in>set ?b. isWhitespace c" by (auto dest: set_takeWhileD)
  ultimately show ?thesis by blast
qed


lemma set_trim: "set (trim s) \<subseteq> set s"
  unfolding trim_def by (metis set_rev set_dropWhileD subsetI)

section \<open>The sanitizer: comments and strings\<close>

lemma stripLoop_comment_outside:
  "quoteState (inDq, inSq) pre = (False, False) \<Longrightarrow>
   stripLoop inDq inSq (pre @ CHR 0x3B # rest) = stripLoop inDq inSq pre"
  by (induction pre arbitrary: inDq inSq) (auto split: if_splits)

lemma stripLoop_comment_inside:
  "quoteState (inDq, inSq) pre \<noteq> (False, False) \<Longrightarrow>
   stripLoop inDq inSq (pre @ CHR 0x3B # rest) = stripLoop inDq inSq (pre @ rest)"
  by (induction pre arbitrary: inDq inSq) (auto split: if_splits)

lemma stripLoop_in_dq: "CHR 0x22 \<notin> set rest \<Longrightarrow> stripLoop True inSq rest = []"
  by (induction rest) auto

lemma stripLoop_in_sq: "CHR 0x27 \<notin> set rest \<Longrightarrow> stripLoop inDq True rest = []"
  by (induction rest) auto

lemma stripLoop_unterminated_dq:
  "fst (quoteState (inDq, inSq) pre) \<Longrightarrow> CHR 0x22 \<notin> set rest \<Longrightarrow>
   stripLoop inDq inSq (pre @ rest) = stripLoop inDq inSq pre"
  by (induction pre arbitrary: inDq inSq) (auto simp: stripLoop_in_dq split: if_splits)

lemma stripLoop_unterminated_sq:
  "snd (quoteState (inDq, inSq) pre) \<Longrightarrow> CHR 0x27 \<notin> set rest \<Longrightarrow>
   stripLoop inDq inSq (pre @ rest) = stripLoop inDq inSq pre"
  by (induction pre arbitrary: inDq inSq) (auto simp: stripLoop_in_sq split: if_splits)

lemma stripLoop_ws_left:
  "\<forall>c\<in>set ws. isWhitespace c \<Longrightarrow> stripLoop False False (ws @ s) = ws @ stripLoop False False s"
  by (induction ws) (auto dest: ws_not_special)

lemma stripLoop_ws_right:
  "\<forall>c\<in>set ws. isWhitespace c \<Longrightarrow>
   \<exists>x. stripLoop inDq inSq (s @ ws) = stripLoop inDq inSq s @ x \<and> (\<forall>c\<in>set x. isWhitespace c)"
proof (induction s arbitrary: inDq inSq)
  case Nil
  have "\<exists>x. stripLoop inDq inSq ws = x \<and> (\<forall>c\<in>set x. isWhitespace c)" using Nil
    by (induction ws arbitrary: inDq inSq) auto
  then show ?case by simp
next
  case (Cons a s)
  then show ?case by auto
qed

lemma codeOf_indent_trim:
  assumes ind: "\<forall>c\<in>set ind. isWhitespace c"
  shows "codeOf (ind @ trim raw) = codeOf raw"
proof -
  obtain a b where raw: "raw = a @ trim raw @ b"
    and a: "\<forall>c\<in>set a. isWhitespace c" and b: "\<forall>c\<in>set b. isWhitespace c"
    using trim_decomp by blast
  obtain x where x: "stripLoop False False (trim raw @ b) = stripLoop False False (trim raw) @ x"
    and xw: "\<forall>c\<in>set x. isWhitespace c"
    using stripLoop_ws_right [OF b] by blast
  have "codeOf raw = trim (stripLoop False False (a @ trim raw @ b))"
    using raw by (simp add: codeOf_def stripStringsAndComments_def)
  also have "\<dots> = trim (stripLoop False False (trim raw))"
    using a x xw by (simp add: stripLoop_ws_left trim_ws_left trim_ws_right)
  finally have "codeOf raw = trim (stripLoop False False (trim raw))" .
  moreover have "codeOf (ind @ trim raw) = trim (stripLoop False False (trim raw))"
    using ind by (simp add: codeOf_def stripStringsAndComments_def stripLoop_ws_left trim_ws_left)
  ultimately show ?thesis by simp
qed

lemma trim_indent_trim:
  assumes ind: "\<forall>c\<in>set ind. isWhitespace c"
  shows "trim (ind @ trim raw) = trim raw"
proof -
  obtain a b where raw: "raw = a @ trim raw @ b"
    and a: "\<forall>c\<in>set a. isWhitespace c" and b: "\<forall>c\<in>set b. isWhitespace c"
    using trim_decomp by blast
  have "trim raw = trim (a @ trim raw @ b)" using raw by simp
  also have "\<dots> = trim (trim raw)"
    using a b by (metis append_assoc trim_ws_left trim_ws_right)
  finally have "trim (trim raw) = trim raw" by simp
  with ind show ?thesis by (simp add: trim_ws_left)
qed

lemma codeOf_blank: "trim raw = [] \<Longrightarrow> codeOf raw = []"
  using stripLoop_ws_left [of raw "[]"]
  by (simp add: trim_Nil_iff codeOf_def stripStringsAndComments_def)

lemma codeOf_comment_line:
  assumes "startsWithSemicolon (trim raw)"
  shows "codeOf raw = []"
proof -
  from assms obtain t where t: "trim raw = CHR 0x3B # t"
    by (auto simp: startsWithSemicolon_def split: list.splits)
  have "codeOf raw = codeOf (trim raw)" using codeOf_indent_trim [of "[]" raw] by simp
  also have "\<dots> = []" using t by (simp add: codeOf_def stripStringsAndComments_def trim_def)
  finally show ?thesis .
qed

lemma stripLoop_plain:
  "plainCode pre \<Longrightarrow> stripLoop False False (pre @ rest) = pre @ stripLoop False False rest"
  by (induction pre) (auto simp: plainCode_def)

lemma stripLoop_dq_body:
  "CHR 0x22 \<notin> set body \<Longrightarrow>
   stripLoop True False (body @ CHR 0x22 # rest) = stripLoop False False rest"
  by (induction body) auto

lemma stripLoop_sq_body:
  "CHR 0x27 \<notin> set body \<Longrightarrow>
   stripLoop False True (body @ CHR 0x27 # rest) = stripLoop False False rest"
  by (induction body) auto

lemma strip_plain:
  assumes "plainCode pre"
  shows "stripStringsAndComments pre = pre"
    and "stripStringsAndComments (pre @ CHR 0x3B # rest) = pre"
  using stripLoop_plain [OF assms, of "[]"] stripLoop_plain [OF assms, of "CHR 0x3B # rest"]
  by (simp_all add: stripStringsAndComments_def)

lemma strip_dq_string:
  assumes "plainCode pre" "CHR 0x22 \<notin> set body"
  shows "stripStringsAndComments (pre @ CHR 0x22 # body @ CHR 0x22 # rest) =
           pre @ stripStringsAndComments rest"
    and "stripStringsAndComments (pre @ CHR 0x22 # body) = pre"
  using stripLoop_plain [OF assms(1), of "CHR 0x22 # body @ CHR 0x22 # rest"]
    stripLoop_plain [OF assms(1), of "CHR 0x22 # body"]
    stripLoop_dq_body [OF assms(2), of rest] stripLoop_in_dq [OF assms(2), of False]
  by (simp_all add: stripStringsAndComments_def)

lemma strip_sq_string:
  assumes "plainCode pre" "CHR 0x27 \<notin> set body"
  shows "stripStringsAndComments (pre @ CHR 0x27 # body @ CHR 0x27 # rest) =
           pre @ stripStringsAndComments rest"
    and "stripStringsAndComments (pre @ CHR 0x27 # body) = pre"
  using stripLoop_plain [OF assms(1), of "CHR 0x27 # body @ CHR 0x27 # rest"]
    stripLoop_plain [OF assms(1), of "CHR 0x27 # body"]
    stripLoop_sq_body [OF assms(2), of rest] stripLoop_in_sq [OF assms(2), of False]
  by (simp_all add: stripStringsAndComments_def)

text \<open>
  Claim C10: the sanitizer returns for every line (it is a structural recursion over the
  characters); it removes everything from a comment marker that stands outside every
  string; a comment marker inside an open double- or single-quoted string is skipped
  like any other character of the string; and after a quote that is never closed
  the rest of the line is dropped as string content. Here \<^verbatim>\<open>pre\<close> is the part of the
  line before the place in question and \<^verbatim>\<open>quoteState\<close> gives the two quote flags
  after it. What the sanitizer keeps is stated too: code with no comment marker and no
  quote in it is returned as it is; a comment after such code leaves exactly that code;
  a closed string after such code is removed with its quotes and the sanitizer goes on
  with what follows it; and a string that is never closed leaves exactly the code
  before it.
\<close>

theorem sanitizer_comments_and_strings:
  "(quoteState (False, False) pre = (False, False) \<longrightarrow>
      stripStringsAndComments (pre @ CHR 0x3B # rest) = stripStringsAndComments pre) \<and>
   (quoteState (False, False) pre \<noteq> (False, False) \<longrightarrow>
      stripStringsAndComments (pre @ CHR 0x3B # rest) = stripStringsAndComments (pre @ rest)) \<and>
   (fst (quoteState (False, False) pre) \<and> CHR 0x22 \<notin> set rest \<longrightarrow>
      stripStringsAndComments (pre @ rest) = stripStringsAndComments pre) \<and>
   (snd (quoteState (False, False) pre) \<and> CHR 0x27 \<notin> set rest \<longrightarrow>
      stripStringsAndComments (pre @ rest) = stripStringsAndComments pre) \<and>
   (plainCode pre \<longrightarrow>
      stripStringsAndComments pre = pre \<and>
      stripStringsAndComments (pre @ CHR 0x3B # rest) = pre) \<and>
   (plainCode pre \<and> CHR 0x22 \<notin> set body \<longrightarrow>
      stripStringsAndComments (pre @ CHR 0x22 # body @ CHR 0x22 # rest) =
        pre @ stripStringsAndComments rest \<and>
      stripStringsAndComments (pre @ CHR 0x22 # body) = pre) \<and>
   (plainCode pre \<and> CHR 0x27 \<notin> set body \<longrightarrow>
      stripStringsAndComments (pre @ CHR 0x27 # body @ CHR 0x27 # rest) =
        pre @ stripStringsAndComments rest \<and>
      stripStringsAndComments (pre @ CHR 0x27 # body) = pre)"
proof (intro conjI impI)
  show "stripStringsAndComments (pre @ CHR 0x3B # rest) = stripStringsAndComments pre"
    if "quoteState (False, False) pre = (False, False)"
    using that stripLoop_comment_outside [of False False pre rest]
    by (simp add: stripStringsAndComments_def)
  show "stripStringsAndComments (pre @ CHR 0x3B # rest) = stripStringsAndComments (pre @ rest)"
    if "quoteState (False, False) pre \<noteq> (False, False)"
    using that stripLoop_comment_inside [of False False pre rest]
    by (simp add: stripStringsAndComments_def)
  show "stripStringsAndComments (pre @ rest) = stripStringsAndComments pre"
    if "fst (quoteState (False, False) pre) \<and> CHR 0x22 \<notin> set rest"
    using that stripLoop_unterminated_dq [of False False pre rest]
    by (simp add: stripStringsAndComments_def)
  show "stripStringsAndComments (pre @ rest) = stripStringsAndComments pre"
    if "snd (quoteState (False, False) pre) \<and> CHR 0x27 \<notin> set rest"
    using that stripLoop_unterminated_sq [of False False pre rest]
    by (simp add: stripStringsAndComments_def)
  show "stripStringsAndComments pre = pre" if "plainCode pre"
    using that by (rule strip_plain)
  show "stripStringsAndComments (pre @ CHR 0x3B # rest) = pre" if "plainCode pre"
    using that by (rule strip_plain)
  show "stripStringsAndComments (pre @ CHR 0x22 # body @ CHR 0x22 # rest) =
      pre @ stripStringsAndComments rest"
    if "plainCode pre \<and> CHR 0x22 \<notin> set body"
    using that strip_dq_string(1) by blast
  show "stripStringsAndComments (pre @ CHR 0x22 # body) = pre"
    if "plainCode pre \<and> CHR 0x22 \<notin> set body"
    using that strip_dq_string(2) by blast
  show "stripStringsAndComments (pre @ CHR 0x27 # body @ CHR 0x27 # rest) =
      pre @ stripStringsAndComments rest"
    if "plainCode pre \<and> CHR 0x27 \<notin> set body"
    using that strip_sq_string(1) by blast
  show "stripStringsAndComments (pre @ CHR 0x27 # body) = pre"
    if "plainCode pre \<and> CHR 0x27 \<notin> set body"
    using that strip_sq_string(2) by blast
qed

text \<open>The parts at concrete lines, with the text the sanitizer returns: a comment after
  code, code alone, a string with a comment marker in it between two stretches of code,
  a character literal, a string and a character literal that are never closed; and a
  comment marker inside an open string, which does not cut the line.\<close>

theorem sanitizer_comments_and_strings_witness:
  "stripStringsAndComments ''a = 1 ; note'' = ''a = 1 '' \<and>
   stripStringsAndComments ''a = 1 '' = ''a = 1 '' \<and>
   stripStringsAndComments ''x = \"a;b\" + y'' = ''x =  + y'' \<and>
   stripStringsAndComments (''c = '' @ CHR 0x27 # ''z'' @ CHR 0x27 # '' + 1'') = ''c =  + 1'' \<and>
   stripStringsAndComments ''s = \"a;b'' = ''s = '' \<and>
   stripStringsAndComments (''c = '' @ CHR 0x27 # ''z; w'') = ''c = '' \<and>
   stripStringsAndComments (''s = \"a'' @ CHR 0x3B # ''b'') = stripStringsAndComments (''s = \"a'' @ ''b'') \<and>
   stripStringsAndComments (''s = \"a'' @ ''b ; c'') = stripStringsAndComments ''s = \"a'' \<and>
   stripStringsAndComments ([CHR ''c'', CHR 0x27] @ ''x'') = stripStringsAndComments [CHR ''c'', CHR 0x27]"
proof -
  have q1: "quoteState (False, False) ''a = 1 '' = (False, False)" by simp
  have q2: "quoteState (False, False) ''s = \"a'' \<noteq> (False, False)" by simp
  have q3: "fst (quoteState (False, False) ''s = \"a'') \<and> CHR 0x22 \<notin> set ''b ; c''" by simp
  have q4: "snd (quoteState (False, False) [CHR ''c'', CHR 0x27]) \<and> CHR 0x27 \<notin> set ''x''" by simp
  have p1: "plainCode ''a = 1 ''" by (simp add: plainCode_def)
  have p2: "plainCode ''x = '' \<and> CHR 0x22 \<notin> set ''a;b''" by (simp add: plainCode_def)
  have p3: "plainCode '' + y''" by (simp add: plainCode_def)
  have p4: "plainCode ''c = '' \<and> CHR 0x27 \<notin> set ''z''" by (simp add: plainCode_def)
  have p5: "plainCode '' + 1''" by (simp add: plainCode_def)
  have p6: "plainCode ''s = '' \<and> CHR 0x22 \<notin> set ''a;b''" by (simp add: plainCode_def)
  have p7: "plainCode ''c = '' \<and> CHR 0x27 \<notin> set ''z; w''" by (simp add: plainCode_def)
  note t = sanitizer_comments_and_strings
  have old1: "stripStringsAndComments (''a = 1 '' @ CHR 0x3B # '' note'') =
      stripStringsAndComments ''a = 1 ''"
    using t [of "''a = 1 ''" "'' note''" "[]", THEN conjunct1] q1 by (rule mp)
  have plain: "stripStringsAndComments ''a = 1 '' = ''a = 1 '' \<and>
      stripStringsAndComments (''a = 1 '' @ CHR 0x3B # '' note'') = ''a = 1 ''"
    using t [of "''a = 1 ''" "'' note''" "[]", THEN conjunct2, THEN conjunct2, THEN conjunct2,
        THEN conjunct2, THEN conjunct1] p1
    by (rule mp)
  have tail1: "stripStringsAndComments '' + y'' = '' + y''"
    using t [of "'' + y''" "[]" "[]", THEN conjunct2, THEN conjunct2, THEN conjunct2,
        THEN conjunct2, THEN conjunct1] p3
    by blast
  have tail2: "stripStringsAndComments '' + 1'' = '' + 1''"
    using t [of "'' + 1''" "[]" "[]", THEN conjunct2, THEN conjunct2, THEN conjunct2,
        THEN conjunct2, THEN conjunct1] p5
    by blast
  have dq: "stripStringsAndComments (''x = '' @ CHR 0x22 # ''a;b'' @ CHR 0x22 # '' + y'') =
      ''x = '' @ stripStringsAndComments '' + y''"
    using t [of "''x = ''" "'' + y''" "''a;b''", THEN conjunct2, THEN conjunct2, THEN conjunct2,
        THEN conjunct2, THEN conjunct2, THEN conjunct1] p2
    by blast
  have sq: "stripStringsAndComments (''c = '' @ CHR 0x27 # ''z'' @ CHR 0x27 # '' + 1'') =
      ''c = '' @ stripStringsAndComments '' + 1''"
    using t [of "''c = ''" "'' + 1''" "''z''", THEN conjunct2, THEN conjunct2, THEN conjunct2,
        THEN conjunct2, THEN conjunct2, THEN conjunct2] p4
    by blast
  have open_dq: "stripStringsAndComments (''s = '' @ CHR 0x22 # ''a;b'') = ''s = ''"
    using t [of "''s = ''" "[]" "''a;b''", THEN conjunct2, THEN conjunct2, THEN conjunct2,
        THEN conjunct2, THEN conjunct2, THEN conjunct1] p6
    by blast
  have open_sq: "stripStringsAndComments (''c = '' @ CHR 0x27 # ''z; w'') = ''c = ''"
    using t [of "''c = ''" "[]" "''z; w''", THEN conjunct2, THEN conjunct2, THEN conjunct2,
        THEN conjunct2, THEN conjunct2, THEN conjunct2] p7
    by blast
  have old2: "stripStringsAndComments (''s = \"a'' @ CHR 0x3B # ''b'') =
      stripStringsAndComments (''s = \"a'' @ ''b'')"
    using t [of "''s = \"a''" "''b''" "[]", THEN conjunct2, THEN conjunct1] q2 by (rule mp)
  have old3: "stripStringsAndComments (''s = \"a'' @ ''b ; c'') = stripStringsAndComments ''s = \"a''"
    using t [of "''s = \"a''" "''b ; c''" "[]", THEN conjunct2, THEN conjunct2, THEN conjunct1] q3
    by (rule mp)
  have old4: "stripStringsAndComments ([CHR ''c'', CHR 0x27] @ ''x'') =
      stripStringsAndComments [CHR ''c'', CHR 0x27]"
    using t [of "[CHR ''c'', CHR 0x27]" "''x''" "[]", THEN conjunct2, THEN conjunct2,
        THEN conjunct2, THEN conjunct1] q4
    by (rule mp)
  have w1: "stripStringsAndComments ''a = 1 ; note'' = ''a = 1 ''" using plain by simp
  have w2: "stripStringsAndComments ''a = 1 '' = ''a = 1 ''" using plain by simp
  have w3: "stripStringsAndComments ''x = \"a;b\" + y'' = ''x =  + y''"
    using dq tail1 by simp
  have w4: "stripStringsAndComments (''c = '' @ CHR 0x27 # ''z'' @ CHR 0x27 # '' + 1'') =
      ''c =  + 1''"
    using sq tail2 by simp
  have w5: "stripStringsAndComments ''s = \"a;b'' = ''s = ''" using open_dq by simp
  from w1 w2 w3 w4 w5 open_sq old2 old3 old4 old1 show ?thesis by (intro conjI)
qed

section \<open>Keywords at the start of a line\<close>

lemma isWordChar_canonicalize: "isWordChar (canonicalize c) = isWordChar c"
  by (auto simp: isWordChar_def canonicalize_def Let_def)

lemma isWordChar_canon: "isWordChar k \<Longrightarrow> canonicalize k = canonicalize c \<Longrightarrow> isWordChar c"
  by (metis isWordChar_canonicalize)

lemma startsWithWord_Cons:
  "startsWithWord (k # ks) (c # cs) \<longleftrightarrow> canonicalize k = canonicalize c \<and> startsWithWord ks cs"
  by (simp add: startsWithWord_def)

lemma startsWithWord_Cons_Nil: "\<not> startsWithWord (k # ks) []"
  by (simp add: startsWithWord_def)

lemma startsWithWord_iff:
  "\<forall>k\<in>set kw. isWordChar k \<Longrightarrow> startsWithWord kw s \<longleftrightarrow> leadingWord s = map canonicalize kw"
proof (induction kw arbitrary: s)
  case Nil
  then show ?case
    by (cases s) (auto simp: startsWithWord_def leadingWord_def)
next
  case (Cons k ks)
  show ?case
  proof (cases s)
    case Nil
    then show ?thesis by (simp add: startsWithWord_Cons_Nil leadingWord_def)
  next
    case (Cons c cs)
    from Cons.prems have k: "isWordChar k" and ks: "\<forall>k\<in>set ks. isWordChar k" by auto
    have ih: "startsWithWord ks cs \<longleftrightarrow> leadingWord cs = map canonicalize ks"
      using Cons.IH [OF ks] .
    show ?thesis
    proof (cases "canonicalize k = canonicalize c")
      case True
      with k have "isWordChar c" by (rule isWordChar_canon)
      with True ih show ?thesis
        unfolding Cons startsWithWord_Cons by (simp add: leadingWord_def)
    next
      case False
      then show ?thesis
        unfolding Cons startsWithWord_Cons by (auto simp: leadingWord_def)
    qed
  qed
qed

lemma containsWordFrom_Nil: "containsWordFrom p kw [] = False" by simp

lemma hasInlineNetZero_Nil: "\<not> hasInlineNetZero []"
  by (simp add: hasInlineNetZero_def containsWord_def containsProcedure_def procedureKeywords_def)

lemma canonicalize_letters:
  "canonicalize (CHR ''a'') = CHR ''A''" "canonicalize (CHR ''b'') = CHR ''B''"
  "canonicalize (CHR ''c'') = CHR ''C''" "canonicalize (CHR ''d'') = CHR ''D''"
  "canonicalize (CHR ''e'') = CHR ''E''" "canonicalize (CHR ''f'') = CHR ''F''"
  "canonicalize (CHR ''g'') = CHR ''G''" "canonicalize (CHR ''h'') = CHR ''H''"
  "canonicalize (CHR ''i'') = CHR ''I''" "canonicalize (CHR ''j'') = CHR ''J''"
  "canonicalize (CHR ''k'') = CHR ''K''" "canonicalize (CHR ''l'') = CHR ''L''"
  "canonicalize (CHR ''m'') = CHR ''M''" "canonicalize (CHR ''n'') = CHR ''N''"
  "canonicalize (CHR ''o'') = CHR ''O''" "canonicalize (CHR ''p'') = CHR ''P''"
  "canonicalize (CHR ''q'') = CHR ''Q''" "canonicalize (CHR ''r'') = CHR ''R''"
  "canonicalize (CHR ''s'') = CHR ''S''" "canonicalize (CHR ''t'') = CHR ''T''"
  "canonicalize (CHR ''u'') = CHR ''U''" "canonicalize (CHR ''v'') = CHR ''V''"
  "canonicalize (CHR ''w'') = CHR ''W''" "canonicalize (CHR ''x'') = CHR ''X''"
  "canonicalize (CHR ''y'') = CHR ''Y''" "canonicalize (CHR ''z'') = CHR ''Z''"
  "canonicalize (CHR ''A'') = CHR ''A''" "canonicalize (CHR ''B'') = CHR ''B''"
  "canonicalize (CHR ''C'') = CHR ''C''" "canonicalize (CHR ''D'') = CHR ''D''"
  "canonicalize (CHR ''E'') = CHR ''E''" "canonicalize (CHR ''F'') = CHR ''F''"
  "canonicalize (CHR ''G'') = CHR ''G''" "canonicalize (CHR ''H'') = CHR ''H''"
  "canonicalize (CHR ''I'') = CHR ''I''" "canonicalize (CHR ''J'') = CHR ''J''"
  "canonicalize (CHR ''K'') = CHR ''K''" "canonicalize (CHR ''L'') = CHR ''L''"
  "canonicalize (CHR ''M'') = CHR ''M''" "canonicalize (CHR ''N'') = CHR ''N''"
  "canonicalize (CHR ''O'') = CHR ''O''" "canonicalize (CHR ''P'') = CHR ''P''"
  "canonicalize (CHR ''Q'') = CHR ''Q''" "canonicalize (CHR ''R'') = CHR ''R''"
  "canonicalize (CHR ''S'') = CHR ''S''" "canonicalize (CHR ''T'') = CHR ''T''"
  "canonicalize (CHR ''U'') = CHR ''U''" "canonicalize (CHR ''V'') = CHR ''V''"
  "canonicalize (CHR ''W'') = CHR ''W''" "canonicalize (CHR ''X'') = CHR ''X''"
  "canonicalize (CHR ''Y'') = CHR ''Y''" "canonicalize (CHR ''Z'') = CHR ''Z''"
  by (simp_all add: canonicalize_def char_of_eq_iff)

lemmas kw_eval = isWordChar_def canonicalize_letters

lemma isEndSelect_lw: "isEndSelect s \<longleftrightarrow> leadingWord s = ''ENDSELECT''"
  unfolding isEndSelect_def by (subst startsWithWord_iff) (simp_all add: kw_eval)

lemma isSelect_lw: "isSelect s \<longleftrightarrow> leadingWord s = ''SELECT''"
  unfolding isSelect_def by (subst startsWithWord_iff) (simp_all add: kw_eval)

lemma startsIf_lw: "startsWithWord ''If'' s \<longleftrightarrow> leadingWord s = ''IF''"
  by (subst startsWithWord_iff) (simp_all add: kw_eval)

lemma isCase_lw: "isCase s \<longleftrightarrow> leadingWord s \<in> {''CASE'', ''DEFAULT''}"
  unfolding isCase_def startsWithAny_def
  by (simp add: startsWithWord_iff kw_eval)

lemma isMiddle_lw:
  "isMiddle s \<longleftrightarrow> leadingWord s \<in> {''ELSE'', ''ELSEIF'', ''COMPILERELSE'', ''COMPILERELSEIF''}"
  unfolding isMiddle_def startsWithAny_def
  by (simp add: startsWithWord_iff kw_eval)

lemma isClosing_lw:
  "isClosing s \<longleftrightarrow> leadingWord s \<in> {''ENDPROCEDURE'', ''ENDMODULE'', ''ENDSTRUCTURE'', ''ENDIF'',
     ''NEXT'', ''WEND'', ''UNTIL'', ''FOREVER'', ''ENDWITH'', ''ENDDECLAREMODULE'',
     ''ENDINTERFACE'', ''ENDENUMERATION'', ''ENDMACRO'', ''ENDDATASECTION'', ''COMPILERENDIF'',
     ''COMPILERENDSELECT''}"
  unfolding isClosing_def startsWithAny_def closingKeywords_def
  by (simp add: startsWithWord_iff kw_eval)

lemma isOpening_lw:
  "isOpening s \<longleftrightarrow> leadingWord s \<in> {''PROCEDURE'', ''PROCEDUREC'', ''PROCEDUREDLL'',
     ''PROCEDURECDLL'', ''MODULE'', ''STRUCTURE'', ''IF'', ''FOR'', ''FOREACH'', ''WHILE'',
     ''REPEAT'', ''WITH'', ''DECLAREMODULE'', ''INTERFACE'', ''ENUMERATION'', ''MACRO'',
     ''DATASECTION'', ''COMPILERIF'', ''COMPILERSELECT''}"
  unfolding isOpening_def startsWithAny_def openingKeywords_def procedureKeywords_def
  by (simp add: startsWithWord_iff kw_eval)

lemmas classify_lw =
  isEndSelect_lw isSelect_lw startsIf_lw isCase_lw isMiddle_lw isClosing_lw isOpening_lw

lemma leadingWord_Nil: "leadingWord [] = []"
  by (simp add: leadingWord_def)

lemma codeOf_nonempty:
  assumes "codeOf raw \<noteq> []"
  shows "trim raw \<noteq> []" and "\<not> startsWithSemicolon (trim raw)"
  using assms codeOf_blank codeOf_comment_line by blast+



lemma isEndSelect_excl:
  "isEndSelect s \<Longrightarrow> \<not> isSelect s \<and> \<not> isCase s \<and> \<not> isMiddle s \<and> \<not> isOpening s \<and> s \<noteq> []"
  by (auto simp: classify_lw leadingWord_Nil)

lemma isMiddle_excl:
  "isMiddle s \<Longrightarrow> \<not> isEndSelect s \<and> \<not> isSelect s \<and> \<not> isCase s \<and> \<not> isClosing s \<and> \<not> isOpening s \<and> s \<noteq> []"
  by (auto simp: classify_lw leadingWord_Nil)

lemma isClosing_excl:
  "isClosing s \<Longrightarrow> \<not> isEndSelect s \<and> \<not> isSelect s \<and> \<not> isCase s \<and> \<not> isMiddle s \<and> \<not> isOpening s \<and> s \<noteq> []"
  by (auto simp: classify_lw leadingWord_Nil)

section \<open>One iteration of the loop\<close>

lemmas phase_defs = closingPhase_def restoreAfterOf_def middlePhase_def postPhase_def
  restorePhase_def pinPhase_def

lemma formatStep_inline:
  assumes "hasInlineNetZero (codeOf raw)"
  shows "formatStep st raw = (Some (indentLevel st), st)"
proof -
  from assms have "codeOf raw \<noteq> []" using hasInlineNetZero_Nil by auto
  then have "trim raw \<noteq> []" "\<not> startsWithSemicolon (trim raw)" by (rule codeOf_nonempty)+
  with assms show ?thesis by (simp add: formatStep_def Let_def phase_defs)
qed


lemma formatStep_orphan_EndSelect:
  assumes "\<not> inSelect st" "isEndSelect (codeOf raw)" "\<not> hasInlineNetZero (codeOf raw)"
  shows "formatStep st raw =
    (Some (max 0 (indentLevel st - 1)), st\<lparr>indentLevel := max 0 (indentLevel st - 1)\<rparr>)"
proof -
  note ex = isEndSelect_excl [OF assms(2)]
  from ex have "trim raw \<noteq> []" "\<not> startsWithSemicolon (trim raw)" by (auto dest: codeOf_nonempty)
  with assms ex show ?thesis by (simp add: formatStep_def Let_def phase_defs)
qed

lemma formatStep_closing:
  assumes "isClosing (codeOf raw)" "\<not> hasInlineNetZero (codeOf raw)"
  shows "formatStep st raw =
    (Some (max 0 (indentLevel st - 1)),
     st\<lparr>indentLevel :=
          (if inSelect st \<and> \<not> caseActive st
           then max (max 0 (indentLevel st - 1)) (selectBaseIndent st + 1)
           else max 0 (indentLevel st - 1))\<rparr>)"
proof -
  note ex = isClosing_excl [OF assms(1)]
  from ex have "trim raw \<noteq> []" "\<not> startsWithSemicolon (trim raw)" by (auto dest: codeOf_nonempty)
  with assms ex show ?thesis by (simp add: formatStep_def Let_def phase_defs)
qed

lemma formatStep_middle:
  assumes "isMiddle (codeOf raw)" "\<not> hasInlineNetZero (codeOf raw)"
  shows "formatStep st raw =
    (Some (max 0 (indentLevel st - 1)),
     st\<lparr>indentLevel :=
          (if inSelect st \<and> \<not> caseActive st
           then max (max 0 (indentLevel st - 1) + 1) (selectBaseIndent st + 1)
           else max 0 (indentLevel st - 1) + 1)\<rparr>)"
proof -
  note ex = isMiddle_excl [OF assms(1)]
  from ex have "trim raw \<noteq> []" "\<not> startsWithSemicolon (trim raw)" by (auto dest: codeOf_nonempty)
  with assms ex show ?thesis by (simp add: formatStep_def Let_def phase_defs)
qed

lemma closingPhase_ok:
  "stateOk st \<Longrightarrow> 0 \<le> fst (closingPhase a code st) \<and> stateOk (snd (closingPhase a code st))"
  by (auto simp: closingPhase_def stateOk_def)

lemma middlePhase_ok:
  "0 \<le> fst p \<and> stateOk (snd p) \<Longrightarrow> 0 \<le> fst (middlePhase r p) \<and> stateOk (snd (middlePhase r p))"
  by (cases p) (simp add: middlePhase_def stateOk_def)

lemma postPhase_ok: "0 \<le> l \<Longrightarrow> stateOk st \<Longrightarrow> stateOk (postPhase i a code l st)"
  by (auto simp: postPhase_def stateOk_def)

lemma restorePhase_ok: "stateOk st \<Longrightarrow> stateOk (restorePhase a r st)"
  by (simp add: restorePhase_def stateOk_def)

lemma pinPhase_ok: "stateOk st \<Longrightarrow> stateOk (pinPhase a code st)"
  by (auto simp: pinPhase_def stateOk_def)

lemma formatStep_stateOk:
  assumes "stateOk st"
  shows "stateOk (snd (formatStep st raw)) \<and>
         (case fst (formatStep st raw) of None \<Rightarrow> True | Some v \<Rightarrow> 0 \<le> v)"
proof -
  let ?a = "hasInlineNetZero (codeOf raw)"
  let ?r = "restoreAfterOf ?a (codeOf raw)"
  let ?p = "middlePhase ?r (closingPhase ?a (codeOf raw) st)"
  have p: "0 \<le> fst ?p \<and> stateOk (snd ?p)"
    using assms by (intro middlePhase_ok closingPhase_ok)
  then have "stateOk (pinPhase ?a (codeOf raw) (restorePhase ?a ?r
      (postPhase (startsWithWord ''If'' (codeOf raw) \<and> containsWord ''EndIf'' (codeOf raw)) ?a (codeOf raw) (fst ?p) (snd ?p))))"
    by (intro pinPhase_ok restorePhase_ok postPhase_ok) simp_all
  with p assms show ?thesis
    by (simp add: formatStep_def Let_def split_def stateOk_def)
qed

section \<open>The loop over the lines\<close>

lemma split_lines_nonempty: "split_lines t \<noteq> []"
  by (induction t) (auto split: list.splits)

lemma split_lines_no_newline: "l \<in> set (split_lines t) \<Longrightarrow> newline \<notin> set l"
  by (induction t arbitrary: l) (auto split: list.splits if_splits)

lemma split_lines_single: "newline \<notin> set l \<Longrightarrow> split_lines l = [l]"
  by (induction l) auto

lemma split_lines_append:
  "newline \<notin> set l \<Longrightarrow> split_lines (l @ newline # r) = l # split_lines r"
  by (induction l) auto

lemma split_join_lines:
  "ls \<noteq> [] \<Longrightarrow> \<forall>l\<in>set ls. newline \<notin> set l \<Longrightarrow> split_lines (join_lines ls) = ls"
  by (induction ls rule: join_lines.induct) (simp_all add: split_lines_single split_lines_append)

lemma createIndent_max:
  "\<exists>ind. createIndent (max 0 level) options = Inr ind \<and> set ind \<subseteq> {CHR 0x20, CHR 0x09}"
  by (auto simp: createIndent_def Let_def mult_less_0_iff)

lemma indent_chars:
  assumes "set ind \<subseteq> {CHR 0x20, CHR 0x09}"
  shows "\<forall>c\<in>set ind. isWhitespace c" and "newline \<notin> set ind"
  using assms by (auto simp: isWhitespace_def newline_def)

lemma formatStep_blank: "fst (formatStep st raw) = None \<longleftrightarrow> trim raw = []"
  by (simp add: formatStep_def Let_def split_def)

lemma trim_Nil: "trim [] = []"
  by (simp add: trim_def)

lemma codeOf_Nil: "codeOf [] = []"
  by (simp add: codeOf_def stripStringsAndComments_def trim_def)

lemma formatLine_ok:
  "\<exists>line. formatLine options st raw = Inr (line, snd (formatStep st raw)) \<and>
     sameLine line raw \<and> (newline \<notin> set raw \<longrightarrow> newline \<notin> set line)"
proof (cases "fst (formatStep st raw)")
  case None
  then have blank: "trim raw = []" by (simp add: formatStep_blank)
  from None have "formatLine options st raw = Inr ([], snd (formatStep st raw))"
    by (simp add: formatLine_def split_def)
  moreover have "sameLine [] raw"
    using blank codeOf_blank [OF blank] by (simp add: sameLine_def trim_Nil codeOf_Nil)
  ultimately show ?thesis by auto
next
  case (Some level)
  obtain ind where ind: "createIndent (max 0 level) options = Inr ind"
    and chars: "set ind \<subseteq> {CHR 0x20, CHR 0x09}"
    using createIndent_max by blast
  note ws = indent_chars [OF chars]
  from Some ind have "formatLine options st raw = Inr (ind @ trim raw, snd (formatStep st raw))"
    by (simp add: formatLine_def split_def)
  moreover have "sameLine (ind @ trim raw) raw"
    using ws(1) by (simp add: sameLine_def trim_indent_trim codeOf_indent_trim)
  moreover have "newline \<notin> set raw \<longrightarrow> newline \<notin> set (ind @ trim raw)"
    using ws(2) set_trim [of raw] by auto
  ultimately show ?thesis by blast
qed

lemma formatLine_cong:
  assumes "sameLine r1 r2"
  shows "formatLine options st r1 = formatLine options st r2"
proof -
  from assms have t: "trim r1 = trim r2" and c: "codeOf r1 = codeOf r2"
    by (simp_all add: sameLine_def)
  have "formatStep st r1 = formatStep st r2"
    unfolding formatStep_def by (simp only: t c)
  then show ?thesis
    unfolding formatLine_def by (simp only: t)
qed

lemma stateAfter_Cons: "stateAfter st (raw # rest) = stateAfter (snd (formatStep st raw)) rest"
  by (simp add: split_def)

lemma lineLevels_Cons:
  "lineLevels st (raw # rest) = fst (formatStep st raw) # lineLevels (snd (formatStep st raw)) rest"
  by (simp add: split_def)

lemma formatLoop_ok:
  "\<exists>out. formatLoop options st ls = Inr (out, stateAfter st ls) \<and> list_all2 sameLine out ls \<and>
     ((\<forall>l\<in>set ls. newline \<notin> set l) \<longrightarrow> (\<forall>l\<in>set out. newline \<notin> set l))"
proof (induction ls arbitrary: st)
  case Nil
  show ?case by simp
next
  case (Cons raw rest)
  obtain line where line: "formatLine options st raw = Inr (line, snd (formatStep st raw))"
    and same: "sameLine line raw" and nl: "newline \<notin> set raw \<longrightarrow> newline \<notin> set line"
    using formatLine_ok by blast
  obtain out where out: "formatLoop options (snd (formatStep st raw)) rest =
      Inr (out, stateAfter (snd (formatStep st raw)) rest)"
    and all2: "list_all2 sameLine out rest"
    and nls: "(\<forall>l\<in>set rest. newline \<notin> set l) \<longrightarrow> (\<forall>l\<in>set out. newline \<notin> set l)"
    using Cons.IH by blast
  have "formatLoop options st (raw # rest) = Inr (line # out, stateAfter st (raw # rest))"
    using line out by (simp add: split_def)
  moreover have "list_all2 sameLine (line # out) (raw # rest)" using same all2 by simp
  moreover have "(\<forall>l\<in>set (raw # rest). newline \<notin> set l) \<longrightarrow>
      (\<forall>l\<in>set (line # out). newline \<notin> set l)"
    using nl nls by simp
  ultimately show ?case by blast
qed

lemma formatLoop_cong:
  "list_all2 sameLine ls1 ls2 \<Longrightarrow> formatLoop options st ls1 = formatLoop options st ls2"
proof (induction ls1 ls2 arbitrary: st rule: list_all2_induct)
  case Nil
  show ?case by simp
next
  case (Cons r1 rs1 r2 rs2)
  then show ?case
    by (simp add: formatLine_cong [of r1 r2] split: sum.splits prod.splits)
qed

lemma format_total:
  obtains out where "formatLoop options st (split_lines text) =
      Inr (out, stateAfter st (split_lines text))"
    and "list_all2 sameLine out (split_lines text)"
    and "split_lines (join_lines out) = out"
proof -
  obtain out where out: "formatLoop options st (split_lines text) =
      Inr (out, stateAfter st (split_lines text))"
    and all2: "list_all2 sameLine out (split_lines text)"
    and nls: "(\<forall>l\<in>set (split_lines text). newline \<notin> set l) \<longrightarrow> (\<forall>l\<in>set out. newline \<notin> set l)"
    using formatLoop_ok by blast
  from all2 have "length out = length (split_lines text)" by (rule list_all2_lengthD)
  then have "out \<noteq> []" using split_lines_nonempty [of "text"] by auto
  moreover from nls have "\<forall>l\<in>set out. newline \<notin> set l"
    using split_lines_no_newline by blast
  ultimately have "split_lines (join_lines out) = out" by (rule split_join_lines)
  with out all2 show ?thesis using that by blast
qed

text \<open>
  Claim C4: formatting the output of the formatter again, with the same options, gives
  the same text, for every text and every value of the options. The formatter returns
  a text on every input, and the statement holds from every initial state, the default
  one included.
\<close>

theorem formatting_is_idempotent:
  "\<exists>out. formatPureBasicCode text options initialState = Inr out \<and>
     formatPureBasicCode out options initialState = Inr out"
proof -
  let ?st = "case initialState of None \<Rightarrow> initialFormatterState | Some s \<Rightarrow> s"
  obtain out where out: "formatLoop options ?st (split_lines text) =
      Inr (out, stateAfter ?st (split_lines text))"
    and all2: "list_all2 sameLine out (split_lines text)"
    and sj: "split_lines (join_lines out) = out"
    by (rule format_total)
  have first: "formatPureBasicCode text options initialState = Inr (join_lines out)"
    using out by (simp add: formatPureBasicCode_def)
  have "formatLoop options ?st out = formatLoop options ?st (split_lines text)"
    using all2 by (rule formatLoop_cong)
  then have "formatPureBasicCode (join_lines out) options initialState = Inr (join_lines out)"
    using out sj by (simp add: formatPureBasicCode_def)
  with first show ?thesis by blast
qed





section \<open>Indentation is never negative\<close>

lemma stateAfter_stateOk: "stateOk st \<Longrightarrow> stateOk (stateAfter st ls)"
proof (induction ls arbitrary: st)
  case Nil
  then show ?case by simp
next
  case (Cons raw rest)
  from Cons.prems have "stateOk (snd (formatStep st raw))"
    using formatStep_stateOk by blast
  then show ?case using Cons.IH by (simp only: stateAfter_Cons)
qed

lemma lineLevels_ok: "stateOk st \<Longrightarrow> list_all levelOk (lineLevels st ls)"
proof (induction ls arbitrary: st)
  case Nil
  show ?case by simp
next
  case (Cons raw rest)
  from Cons.prems have "stateOk (snd (formatStep st raw))" and "levelOk (fst (formatStep st raw))"
    using formatStep_stateOk [of st raw] by (simp_all add: levelOk_def)
  then show ?case using Cons.IH by (simp add: lineLevels_Cons del: lineLevels.simps)
qed

lemma stateOk_initial: "stateOk initialFormatterState"
  by (simp add: stateOk_def initialFormatterState_def)

lemma formatStep_closing_at_zero:
  assumes "indentLevel st = 0" "\<not> hasInlineNetZero (codeOf raw)"
    "(isClosing (codeOf raw) \<and> (inSelect st \<longrightarrow> caseActive st)) \<or>
     (isEndSelect (codeOf raw) \<and> \<not> inSelect st)"
  shows "formatStep st raw = (Some 0, st)"
proof -
  have same: "st\<lparr>indentLevel := 0\<rparr> = st" using assms(1) by (cases st) simp
  from assms(3) show ?thesis
  proof
    assume c: "isClosing (codeOf raw) \<and> (inSelect st \<longrightarrow> caseActive st)"
    then show ?thesis
      using formatStep_closing [of raw st] assms(1,2) same by auto
  next
    assume e: "isEndSelect (codeOf raw) \<and> \<not> inSelect st"
    then show ?thesis
      using formatStep_orphan_EndSelect [of st raw] assms(1,2) same by auto
  qed
qed

text \<open>
  Claim C5: for every input text the formatter returns a text (it never throws); the
  level of every emitted line is at least 0; the running \<^verbatim>\<open>indentLevel\<close> is at least 0
  after every line, that is after every prefix of the lines; and a closing keyword met
  at level 0 with nothing open (a closing statement outside a Select that still waits
  for its first Case, or an \<^verbatim>\<open>EndSelect\<close> outside a Select) is emitted at level 0 and
  leaves the state as it is, instead of taking the level below 0.
\<close>

theorem indentation_never_negative:
  "(\<exists>out. formatPureBasicCode text options None = Inr out) \<and>
   list_all levelOk (lineLevels initialFormatterState (split_lines text)) \<and>
   0 \<le> indentLevel (stateAfter initialFormatterState (take k (split_lines text))) \<and>
   (indentLevel st = 0 \<and> \<not> hasInlineNetZero (codeOf raw) \<and>
      ((isClosing (codeOf raw) \<and> (inSelect st \<longrightarrow> caseActive st)) \<or>
       (isEndSelect (codeOf raw) \<and> \<not> inSelect st)) \<longrightarrow>
    formatStep st raw = (Some 0, st))"
proof -
  obtain out where "formatLoop options initialFormatterState (split_lines text) =
      Inr (out, stateAfter initialFormatterState (split_lines text))"
    using formatLoop_ok by blast
  then have "\<exists>out. formatPureBasicCode text options None = Inr out"
    by (simp add: formatPureBasicCode_def)
  moreover have "list_all levelOk (lineLevels initialFormatterState (split_lines text))"
    using stateOk_initial by (rule lineLevels_ok)
  moreover have "0 \<le> indentLevel (stateAfter initialFormatterState (take k (split_lines text)))"
    using stateAfter_stateOk [OF stateOk_initial] by (simp add: stateOk_def)
  ultimately show ?thesis using formatStep_closing_at_zero [of st raw] by blast
qed

text \<open>Two closing keywords with nothing open: both lines stay at level 0.\<close>

lemma closing_EndIf: "isClosing (codeOf ''EndIf'') \<and> \<not> hasInlineNetZero (codeOf ''EndIf'')"
  by code_simp

theorem indentation_never_negative_witness:
  "formatStep initialFormatterState ''EndIf'' = (Some 0, initialFormatterState) \<and>
   list_all levelOk (lineLevels initialFormatterState (split_lines ''EndIf\<newline>Next'')) \<and>
   0 \<le> indentLevel (stateAfter initialFormatterState (take 2 (split_lines ''EndIf\<newline>Next'')))"
proof -
  have h: "indentLevel initialFormatterState = 0 \<and> \<not> inSelect initialFormatterState"
    by (simp add: initialFormatterState_def)
  show ?thesis
    using indentation_never_negative [of "''EndIf\<newline>Next''" DEFAULT_OPTIONS 2
        initialFormatterState "''EndIf''"] h closing_EndIf
    by blast
qed

section \<open>Inline blocks\<close>

lemma containsWord_Nil: "\<not> containsWord kw []"
  by (simp add: containsWord_def)

lemma hasInlineNetZero_families:
  "hasInlineNetZero code \<longleftrightarrow>
     list_ex (\<lambda>(opener, closer). containsWord opener code \<and> containsWord closer code) blockFamilies"
  unfolding hasInlineNetZero_def blockFamilies_def containsProcedure_def procedureKeywords_def
  by (simp add: conj_disj_distribL conj_disj_distribR disj_assoc)

text \<open>
  Claim C7: a line whose sanitized text contains an opening keyword and the closing
  keyword of the same block family is emitted at the current \<^verbatim>\<open>indentLevel\<close> and
  changes none of \<^verbatim>\<open>indentLevel\<close>, \<^verbatim>\<open>inSelect\<close>, \<^verbatim>\<open>selectBaseIndent\<close>,
  \<^verbatim>\<open>caseActive\<close>; so the levels of the following lines and the state after them are
  what they are without that line.
\<close>

theorem inline_net_zero_leaves_state:
  assumes "(opener, closer) \<in> set blockFamilies"
    and "containsWord opener (codeOf raw)" and "containsWord closer (codeOf raw)"
  shows "formatStep st raw = (Some (indentLevel st), st) \<and>
         (\<exists>indent. createIndent (max 0 (indentLevel st)) options = Inr indent \<and>
            formatLine options st raw = Inr (indent @ trim raw, st)) \<and>
         lineLevels st (raw # rest) = Some (indentLevel st) # lineLevels st rest \<and>
         stateAfter st (raw # rest) = stateAfter st rest"
proof -
  from assms have "hasInlineNetZero (codeOf raw)"
    unfolding hasInlineNetZero_families list_ex_iff by blast
  then have step: "formatStep st raw = (Some (indentLevel st), st)" by (rule formatStep_inline)
  obtain indent where indent: "createIndent (max 0 (indentLevel st)) options = Inr indent"
    using createIndent_max by blast
  with step have "formatLine options st raw = Inr (indent @ trim raw, st)"
    by (simp add: formatLine_def)
  with indent step show ?thesis by simp
qed

text \<open>The line \<^verbatim>\<open>If a : b() : EndIf\<close> at level 2.\<close>

lemma inline_If_line:
  "(''If'', ''EndIf'') \<in> set blockFamilies \<and>
   containsWord ''If'' (codeOf ''If a : b() : EndIf'') \<and>
   containsWord ''EndIf'' (codeOf ''If a : b() : EndIf'')"
  by code_simp

theorem inline_net_zero_leaves_state_witness:
  "formatStep \<lparr> indentLevel = 2, inSelect = False, selectBaseIndent = 0, caseActive = False \<rparr>
     ''If a : b() : EndIf'' =
   (Some 2, \<lparr> indentLevel = 2, inSelect = False, selectBaseIndent = 0, caseActive = False \<rparr>)"
  using inline_net_zero_leaves_state [of "''If''" "''EndIf''" "''If a : b() : EndIf''"
      "\<lparr> indentLevel = 2, inSelect = False, selectBaseIndent = 0, caseActive = False \<rparr>"
      DEFAULT_OPTIONS "[]"]
    inline_If_line
  by simp

section \<open>Case labels\<close>





section \<open>Orphaned closing lines\<close>





section \<open>The state reconstructor against the formatter\<close>

text \<open>
  Claim C2: for every sequence of lines, \<^verbatim>\<open>computeInitialFormatterState\<close> returns the
  state \<^verbatim>\<open>formatPureBasicCode\<close> is in after those lines. The code does not do that: on
  the one line \<^verbatim>\<open>Macro m\<close> the formatter, whose list of openers has \<^verbatim>\<open>Macro\<close>, is
  at level 1, and the reconstructor, whose list lacks it, at level 0; and after
  \<^verbatim>\<open>Select a\<close>, \<^verbatim>\<open>Case 1\<close> the formatter has \<^verbatim>\<open>caseActive\<close> true, whereas the
  reconstructor never sets it.
\<close>

theorem reconstructor_differs_on_Macro:
  "formatLoop DEFAULT_OPTIONS initialFormatterState [''Macro m''] =
     Inr ([''Macro m''],
          \<lparr> indentLevel = 1, inSelect = False, selectBaseIndent = 0, caseActive = False \<rparr>) \<and>
   computeInitialFormatterState [''Macro m''] =
     \<lparr> indentLevel = 0, inSelect = False, selectBaseIndent = 0, caseActive = False \<rparr> \<and>
   stateAfter initialFormatterState [''Select a'', ''Case 1''] =
     \<lparr> indentLevel = 2, inSelect = True, selectBaseIndent = 0, caseActive = True \<rparr> \<and>
   computeInitialFormatterState [''Select a'', ''Case 1''] =
     \<lparr> indentLevel = 2, inSelect = True, selectBaseIndent = 0, caseActive = False \<rparr>"
  by code_simp

text \<open>
  Claim C1: on a document that full formatting leaves unchanged, range formatting gives
  the lines the full formatter gives. The code does not do that: the three lines below
  are left unchanged by the full formatter, and range formatting of the second line
  alone replaces it by the same line without indentation.
\<close>

theorem range_formatting_differs_on_Macro:
  "formatPureBasicCode ''Macro m\<newline>    y()\<newline>EndMacro'' DEFAULT_OPTIONS None =
     Inr ''Macro m\<newline>    y()\<newline>EndMacro'' \<and>
   handleDocumentRangeFormatting ''Macro m\<newline>    y()\<newline>EndMacro'' 1 1 DEFAULT_OPTIONS =
     Inr [Replace 1 1 ''y()'']"
  by code_simp

section \<open>Middle statements\<close>

text \<open>From level 1 upwards, and outside a Select that still waits for its first Case below
  its pinned level, a middle line is emitted one level lower and leaves the state as it
  is.\<close>

lemma middle_above_level_zero:
  assumes "isMiddle (codeOf raw)" "\<not> hasInlineNetZero (codeOf raw)" "1 \<le> indentLevel st"
    and "inSelect st \<and> \<not> caseActive st \<longrightarrow> selectBaseIndent st + 1 \<le> indentLevel st"
  shows "formatStep st raw = (Some (indentLevel st - 1), st)"
proof -
  from assms(3,4) have "(if inSelect st \<and> \<not> caseActive st
        then max (max 0 (indentLevel st - 1) + 1) (selectBaseIndent st + 1)
        else max 0 (indentLevel st - 1) + 1) = indentLevel st"
    by auto
  with formatStep_middle [OF assms(1,2), of st] assms(3) show ?thesis by simp
qed

text \<open>
  Claim C3: a middle line (\<^verbatim>\<open>Else\<close>, \<^verbatim>\<open>ElseIf\<close>) is emitted at
  \<^verbatim>\<open>max(0, indentLevel - 1)\<close> and leaves \<^verbatim>\<open>indentLevel\<close> as it was, also at level 0.
  At level 0 the code emits \<^verbatim>\<open>Else\<close> at level 0 and leaves the level at 1, so the next
  line is indented; the reconstructor leaves the level at 0 on the same line.
\<close>

theorem middle_at_level_zero_raises_level:
  "isMiddle (codeOf ''Else'') \<and> \<not> hasInlineNetZero (codeOf ''Else'') \<and>
   formatStep initialFormatterState ''Else'' =
     (Some 0, \<lparr> indentLevel = 1, inSelect = False, selectBaseIndent = 0, caseActive = False \<rparr>) \<and>
   initStep initialFormatterState ''Else'' = initialFormatterState \<and>
   formatPureBasicCode ''Else\<newline>foo()'' DEFAULT_OPTIONS None = Inr ''Else\<newline>    foo()''"
  by code_simp

end
